theory Spec2Isabelle
  imports Main "HOL-Library.Sublist" "HOL-Library.Monad_Syntax"
begin

section \<open>Strings\<close>

text \<open>
  A Python \<open>str\<close> is a sequence of Unicode code points, and every string operation of
  \<open>extract_rpg_sessions.py\<close> (\<open>strip\<close>, \<open>startswith\<close>, \<open>endswith\<close>, \<open>replace\<close>,
  \<open>join\<close>, the regular expression) works on code points. A string is therefore a list
  of code points, each a natural number; the literals of the source are written as their
  code points, with the characters named in the accompanying text.
\<close>

type_synonym ustring = "nat list"

text \<open>
  \<open>str.strip()\<close> without argument removes leading and trailing whitespace, which for
  \<open>str\<close> is the set of code points for which \<open>str.isspace\<close> holds: U+0009..U+000D,
  U+001C..U+0020, U+0085, U+00A0, U+1680, U+2000..U+200A, U+2028, U+2029, U+202F, U+205F and
  U+3000. The line terminator U+000A is one of them.
\<close>

definition py_isspace :: "nat \<Rightarrow> bool" where
  "py_isspace c = ((9 \<le> c \<and> c \<le> 13) \<or> (28 \<le> c \<and> c \<le> 32) \<or> c = 133 \<or> c = 160
      \<or> c = 5760 \<or> (8192 \<le> c \<and> c \<le> 8202) \<or> c = 8232 \<or> c = 8233 \<or> c = 8239
      \<or> c = 8287 \<or> c = 12288)"

definition py_strip :: "ustring \<Rightarrow> ustring" where
  "py_strip s = rev (dropWhile py_isspace (rev (dropWhile py_isspace s)))"

definition py_startswith :: "ustring \<Rightarrow> ustring \<Rightarrow> bool" where
  "py_startswith s p = prefix p s"

definition py_endswith :: "ustring \<Rightarrow> ustring \<Rightarrow> bool" where
  "py_endswith s p = suffix p s"

text \<open>
  \<open>s.replace(old, new)\<close> replaces the occurrences of \<open>old\<close> found by scanning from the
  left, continuing after each replaced occurrence. With an empty \<open>old\<close> Python inserts
  \<open>new\<close> before every code point and at the end.
\<close>

function py_replace :: "ustring \<Rightarrow> ustring \<Rightarrow> ustring \<Rightarrow> ustring" where
  "py_replace old new s =
     (if old = [] then new @ concat (map (\<lambda>c. c # new) s)
      else if s = [] then []
      else if prefix old s then new @ py_replace old new (drop (length old) s)
      else hd s # py_replace old new (tl s))"
  by pat_completeness auto
termination
  by (relation "measure (\<lambda>(old, new, s). length s)") auto

declare py_replace.simps [simp del]

fun py_join :: "ustring \<Rightarrow> ustring list \<Rightarrow> ustring" where
  "py_join sep [] = []"
| "py_join sep [x] = x"
| "py_join sep (x # y # ys) = x @ sep @ py_join sep (y # ys)"

text \<open>\<open>str(n)\<close> for a non-negative integer: its decimal digits.\<close>

function py_str :: "nat \<Rightarrow> ustring" where
  "py_str n = (if n < 10 then [48 + n] else py_str (n div 10) @ [48 + n mod 10])"
  by pat_completeness auto
termination
  by (relation "measure (\<lambda>n. n)") auto

declare py_str.simps [simp del]

section \<open>Messages and the field labels\<close>

text \<open>
  A message is the dictionary with the keys \<open>'username'\<close>, \<open>'timestamp'\<close> and
  \<open>'content'\<close> that \<open>parse_chat_log\<close> builds; \<open>timestamp\<close> is \<open>None\<close> or a string.
\<close>

record message =
  username :: ustring
  timestamp :: "ustring option"
  content :: ustring

text \<open>
  The three field labels: the time label (U+65F6 U+95F4 and a colon), the content label
  (U+5185 U+5BB9 and a colon) and the mention label (U+63D0 U+53CA and a colon).
\<close>

definition time_label :: ustring where
  "time_label = [26102, 38388, 58]"

definition content_label :: ustring where
  "content_label = [20869, 23481, 58]"

definition mention_label :: ustring where
  "mention_label = [25552, 21450, 58]"

section \<open>The message reconstructor: \<open>parse_chat_log\<close>\<close>

text \<open>
  The function works on \<open>lines\<close>, the list \<open>f.readlines()\<close> returns. An index into
  \<open>lines\<close> outside its range raises \<open>IndexError\<close> in Python; \<open>line_at\<close> returns \<open>None\<close>
  there, and every function of the reconstructor returns an \<open>option\<close>, \<open>None\<close> standing
  for the exception having been raised.
\<close>

definition line_at :: "ustring list \<Rightarrow> nat \<Rightarrow> ustring option" where
  "line_at lines j = (if j < length lines then Some (lines ! j) else None)"

text \<open>Lines 64 to 66: the optional time line after the username line.\<close>

definition read_timestamp :: "ustring list \<Rightarrow> nat \<Rightarrow> (nat \<times> ustring option) option" where
  "read_timestamp lines i =
     (if i + 1 < length lines then do {
        l \<leftarrow> line_at lines (i + 1);
        if py_startswith (py_strip l) time_label
        then Some (i + 1, Some (py_strip (py_replace time_label [] (py_strip l))))
        else Some (i, None)
      } else Some (i, None))"

text \<open>
  Line 79, second disjunct: the next line ends with a colon and the line after it starts
  with the time label, so a new message header begins.
\<close>

definition header_follows :: "ustring list \<Rightarrow> nat \<Rightarrow> ustring \<Rightarrow> bool option" where
  "header_follows lines i next_line =
     (if py_endswith next_line [58] \<and> i + 2 < length lines then do {
        l2 \<leftarrow> line_at lines (i + 2);
        Some (py_startswith (py_strip l2) time_label)
      } else Some False)"

text \<open>
  Lines 75 to 95: the inner \<open>while\<close> loop that accumulates the content lines. Its state is
  the index \<open>i\<close>, the counter \<open>consecutive_empty\<close> and the list \<open>content_lines\<close>; a
  \<open>break\<close> returns the state.
\<close>

function accumulate ::
  "ustring list \<Rightarrow> nat \<Rightarrow> nat \<Rightarrow> ustring list \<Rightarrow> (nat \<times> ustring list) option" where
  "accumulate lines i consecutive_empty content_lines =
     (if i + 1 < length lines then do {
        l \<leftarrow> line_at lines (i + 1);
        let next_line = py_strip l;
        hdr \<leftarrow> (if py_startswith next_line mention_label then Some True
                else header_follows lines i next_line);
        if hdr then Some (i, content_lines)
        else if next_line = [] then
          (if consecutive_empty + 1 \<ge> 2 then Some (i, content_lines)
           else accumulate lines (i + 1) (consecutive_empty + 1) (content_lines @ [[]]))
        else accumulate lines (i + 1) 0 (content_lines @ [next_line])
      } else Some (i, content_lines))"
  by pat_completeness auto
termination
  by (relation "measure (\<lambda>(lines, i, ce, cl). length lines - i)") auto

declare accumulate.simps [simp del]

text \<open>Lines 98 and 99: empty lines are popped from the end of \<open>content_lines\<close>.\<close>

function pop_blank_tail :: "ustring list \<Rightarrow> ustring list" where
  "pop_blank_tail content_lines =
     (if content_lines \<noteq> [] \<and> last content_lines = []
      then pop_blank_tail (butlast content_lines) else content_lines)"
  by pat_completeness auto
termination
  by (relation "measure length") auto

declare pop_blank_tail.simps [simp del]

text \<open>Line 70: the first content line, \<open>lines[i + 1].strip().replace(label, '').strip()\<close>.\<close>

definition first_content_line :: "ustring \<Rightarrow> ustring" where
  "first_content_line l = py_strip (py_replace content_label [] (py_strip l))"

text \<open>Lines 69 to 101: the content field; the joined lines are separated by U+000A.\<close>

definition read_content :: "ustring list \<Rightarrow> nat \<Rightarrow> (nat \<times> ustring option) option" where
  "read_content lines i =
     (if i + 1 < length lines then do {
        l \<leftarrow> line_at lines (i + 1);
        if py_startswith (py_strip l) content_label then do {
          (i', content_lines) \<leftarrow> accumulate lines (i + 1) 0 [first_content_line l];
          Some (i', Some (py_join [10] (pop_blank_tail content_lines)))
        } else Some (i, None)
      } else Some (i, None))"

text \<open>Lines 104 and 105: the mention lines after the content are skipped.\<close>

function skip_mentions :: "ustring list \<Rightarrow> nat \<Rightarrow> nat option" where
  "skip_mentions lines i =
     (if i + 1 < length lines then do {
        l \<leftarrow> line_at lines (i + 1);
        if py_strip l \<noteq> [] \<and> py_startswith (py_strip l) mention_label
        then skip_mentions lines (i + 1) else Some i
      } else Some i)"
  by pat_completeness auto
termination
  by (relation "measure (\<lambda>(lines, i). length lines - i)") auto

declare skip_mentions.simps [simp del]

text \<open>
  Lines 55 to 112: the body of the outer loop at index \<open>i\<close>, up to the final \<open>i += 1\<close>. It
  returns the index reached and the messages appended (none or one). \<open>if content:\<close> holds
  when \<open>content\<close> is neither \<open>None\<close> nor the empty string.
\<close>

definition parse_record :: "ustring list \<Rightarrow> nat \<Rightarrow> (nat \<times> message list) option" where
  "parse_record lines i = do {
     raw \<leftarrow> line_at lines i;
     let line = py_strip raw;
     if line \<noteq> [] \<and> py_endswith line [58] then do {
       let uname = butlast line;
       (i1, tstamp) \<leftarrow> read_timestamp lines i;
       (i2, cont) \<leftarrow> read_content lines i1;
       i3 \<leftarrow> skip_mentions lines i2;
       Some (i3, case cont of
                   None \<Rightarrow> []
                 | Some c \<Rightarrow> if c \<noteq> []
                             then [\<lparr>username = uname, timestamp = tstamp, content = c\<rparr>]
                             else [])
     } else Some (i, [])
   }"

subsection \<open>No step of the reconstructor raises, and the index never moves back\<close>

lemma line_at_Some [simp]: "j < length lines \<Longrightarrow> line_at lines j = Some (lines ! j)"
  by (simp add: line_at_def)

definition blank_at :: "ustring list \<Rightarrow> nat \<Rightarrow> bool" where
  "blank_at lines j = (py_strip (lines ! j) = [])"

definition stop_at :: "ustring list \<Rightarrow> nat \<Rightarrow> bool" where
  "stop_at lines j =
     (py_startswith (py_strip (lines ! j)) mention_label \<or>
      (py_endswith (py_strip (lines ! j)) [58] \<and> j + 1 < length lines \<and>
       py_startswith (py_strip (lines ! (j + 1))) time_label))"

lemma accumulate_unfold:
  "accumulate lines i ce cl =
     (if i + 1 < length lines then
        (if stop_at lines (i + 1) then Some (i, cl)
         else if blank_at lines (i + 1) then
           (if ce + 1 \<ge> 2 then Some (i, cl) else accumulate lines (i + 1) (ce + 1) (cl @ [[]]))
         else accumulate lines (i + 1) 0 (cl @ [py_strip (lines ! (i + 1))]))
      else Some (i, cl))"
  by (subst accumulate.simps) (simp add: header_follows_def stop_at_def blank_at_def Let_def)

lemma accumulate_total: "\<exists>i' cl'. accumulate lines i ce cl = Some (i', cl') \<and> i \<le> i'"
proof (induction "length lines - i" arbitrary: i ce cl rule: less_induct)
  case less
  show ?case
  proof (cases "i + 1 < length lines")
    case False
    then show ?thesis by (subst accumulate_unfold) simp
  next
    case True
    then have m: "length lines - (i + 1) < length lines - i" by simp
    from less [OF m] obtain a b where
      "accumulate lines (i + 1) (ce + 1) (cl @ [[]]) = Some (a, b)" "i + 1 \<le> a"
      by blast
    moreover from less [OF m] obtain a' b' where
      "accumulate lines (i + 1) 0 (cl @ [py_strip (lines ! (i + 1))]) = Some (a', b')" "i + 1 \<le> a'"
      by blast
    ultimately show ?thesis
      by (subst accumulate_unfold) simp
  qed
qed

lemma skip_mentions_total: "\<exists>i'. skip_mentions lines i = Some i' \<and> i \<le> i'"
proof (induction "length lines - i" arbitrary: i rule: less_induct)
  case less
  show ?case
  proof (cases "i + 1 < length lines")
    case False
    then show ?thesis by (subst skip_mentions.simps) simp
  next
    case True
    then have m: "length lines - (i + 1) < length lines - i" by simp
    from less [OF m] obtain a where "skip_mentions lines (i + 1) = Some a" "i + 1 \<le> a"
      by blast
    with True show ?thesis
      by (subst skip_mentions.simps) simp
  qed
qed

lemma read_timestamp_total: "\<exists>i' ts. read_timestamp lines i = Some (i', ts) \<and> i \<le> i'"
  by (simp add: read_timestamp_def)

lemma read_content_total: "\<exists>i' c. read_content lines i = Some (i', c) \<and> i \<le> i'"
proof -
  obtain a b where
    "accumulate lines (i + 1) 0 [first_content_line (lines ! (i + 1))] = Some (a, b)" "i + 1 \<le> a"
    using accumulate_total by blast
  then show ?thesis by (simp add: read_content_def)
qed

lemma parse_record_total:
  assumes "i < length lines"
  shows "\<exists>i' new. parse_record lines i = Some (i', new) \<and> i \<le> i'"
proof -
  obtain i1 ts where 1: "read_timestamp lines i = Some (i1, ts)" "i \<le> i1"
    using read_timestamp_total by blast
  obtain i2 c where 2: "read_content lines i1 = Some (i2, c)" "i1 \<le> i2"
    using read_content_total by blast
  obtain i3 where 3: "skip_mentions lines i2 = Some i3" "i2 \<le> i3"
    using skip_mentions_total by blast
  from assms 1 2 3 show ?thesis
    by (simp add: parse_record_def Let_def)
qed

lemma parse_record_mono:
  "parse_record lines i = Some (i', new) \<Longrightarrow> i < length lines \<Longrightarrow> i \<le> i'"
  using parse_record_total [of i lines] by auto

text \<open>
  Lines 52 to 116: the outer \<open>while\<close> loop, with the index \<open>i\<close> and the list \<open>messages\<close>
  as its state, and the function itself, which starts the loop at index 0 with no message.
\<close>

function parse_loop :: "ustring list \<Rightarrow> nat \<Rightarrow> message list \<Rightarrow> message list option" where
  "parse_loop lines i messages =
     (if i < length lines then do {
        (i', new) \<leftarrow> parse_record lines i;
        parse_loop lines (i' + 1) (messages @ new)
      } else Some messages)"
  by pat_completeness auto
termination
proof (relation "measure (\<lambda>(lines, i, messages). length lines - i)")
  show "wf (measure (\<lambda>(lines, i, messages). length lines - i))" by simp
next
  fix lines :: "ustring list" and i :: nat and messages :: "message list" and x and i' new
  assume "i < length lines" "parse_record lines i = Some x" "(i', new) = x"
  then have "i \<le> i'" using parse_record_mono [of lines i i' new] by simp
  with \<open>i < length lines\<close>
  show "((lines, i' + 1, messages @ new), (lines, i, messages))
          \<in> measure (\<lambda>(lines, i, messages). length lines - i)"
    by simp
qed

declare parse_loop.simps [simp del]

definition parse_chat_log :: "ustring list \<Rightarrow> message list option" where
  "parse_chat_log lines = parse_loop lines 0 []"

section \<open>The start-marker pattern\<close>

text \<open>
  The source compiles one regular expression and calls \<open>search\<close> on message bodies. The
  expressions it needs are literals, character classes, concatenation, the optional group
  \<open>(...)?\<close> and the repetition \<open>+\<close>. \<open>re_match r s\<close> lists, in the order the backtracking
  matcher tries them, the remainders of \<open>s\<close> after each way \<open>r\<close> matches a prefix of \<open>s\<close>;
  \<open>re_search r s\<close> holds when \<open>r\<close> matches at some position of \<open>s\<close>, which is when
  \<open>search\<close> returns a match object.
\<close>

datatype rexp = Lit nat | Cls "nat \<Rightarrow> bool" | Cat rexp rexp | Opt rexp | Plus rexp

function re_match :: "rexp \<Rightarrow> ustring \<Rightarrow> ustring list" where
  "re_match (Lit c) s = (case s of [] \<Rightarrow> [] | x # xs \<Rightarrow> if x = c then [xs] else [])"
| "re_match (Cls p) s = (case s of [] \<Rightarrow> [] | x # xs \<Rightarrow> if p x then [xs] else [])"
| "re_match (Cat a b) s = concat (map (re_match b) (re_match a s))"
| "re_match (Opt a) s = re_match a s @ [s]"
| "re_match (Plus a) s =
     concat (map (\<lambda>s'. if length s' < length s then re_match (Plus a) s' @ [s'] else [s'])
                 (re_match a s))"
  by pat_completeness auto
termination
  by (relation "inv_image (less_than <*lex*> less_than) (\<lambda>(r, s). (size r, length s))") auto

fun re_search :: "rexp \<Rightarrow> ustring \<Rightarrow> bool" where
  "re_search r [] = (re_match r [] \<noteq> [])"
| "re_search r (x # xs) = (re_match r (x # xs) \<noteq> [] \<or> re_search r xs)"

fun seq :: "rexp list \<Rightarrow> rexp" where
  "seq [r] = r"
| "seq (r # rs) = Cat r (seq rs)"
| "seq [] = Opt (Cls (\<lambda>_. False))"

text \<open>
  The pattern of lines 129 and 158: two em dashes (U+2014), \<open>CST501\<close>, one of \<open>6\<close> and
  \<open>7\<close>, a slash, digits, a slash, digits, optionally a slash, digits and an optional
  U+65F6, optionally a fullwidth comma (U+FF0C) and one or more code points other than the
  em dash, and two em dashes. For a \<open>str\<close> pattern \<open>\d\<close> matches the code points of the
  Unicode category Nd of the interpreter's Unicode database; that table is the parameter
  \<open>nd\<close> of the pattern and of every function that uses it.
\<close>

definition start_pattern :: "(nat \<Rightarrow> bool) \<Rightarrow> rexp" where
  "start_pattern nd = seq
     [Lit 8212, Lit 8212, Lit 67, Lit 83, Lit 84, Lit 53, Lit 48, Lit 49,
      Cls (\<lambda>c. c = 54 \<or> c = 55), Lit 47, Plus (Cls nd), Lit 47, Plus (Cls nd),
      Opt (seq [Lit 47, Plus (Cls nd), Opt (Lit 26102)]),
      Opt (seq [Lit 65292, Plus (Cls (\<lambda>c. c \<noteq> 8212))]),
      Lit 8212, Lit 8212]"

text \<open>
  The ASCII digits belong to Nd in every version of the Unicode database; the concrete
  examples below use this table and bodies whose other code points are in no version of Nd.
\<close>

definition ascii_digit :: "nat \<Rightarrow> bool" where
  "ascii_digit c = (48 \<le> c \<and> c \<le> 57)"

text \<open>The end marker: two em dashes, \<open>save\<close>, two em dashes.\<close>

definition save_marker :: ustring where
  "save_marker = [8212, 8212, 115, 97, 118, 101, 8212, 8212]"

section \<open>The session segmenter: \<open>extract_rpg_sessions\<close>\<close>

text \<open>
  The \<open>for\<close> loop of lines 131 to 147 updates three variables, which form the state.
  \<open>seg_step\<close> is the loop body, \<open>seg_loop\<close> the loop, and \<open>extract_rpg_sessions\<close> adds the
  closure at the end of the input (lines 150 and 151). Every list the source appends to
  \<open>sessions\<close> is replaced by a fresh list afterwards, so no emitted session is mutated.
\<close>

record seg_state =
  sessions :: "message list list"
  in_session :: bool
  current_session :: "message list"

definition seg_init :: seg_state where
  "seg_init = \<lparr>sessions = [], in_session = False, current_session = []\<rparr>"

definition seg_step :: "(nat \<Rightarrow> bool) \<Rightarrow> seg_state \<Rightarrow> message \<Rightarrow> seg_state" where
  "seg_step nd st msg =
     (if re_search (start_pattern nd) (content msg) then
        (if in_session st \<and> current_session st \<noteq> []
         then st\<lparr>sessions := sessions st @ [current_session st]\<rparr>
         else st)\<lparr>in_session := True, current_session := [msg]\<rparr>
      else if in_session st then
        (if content msg = save_marker
         then st\<lparr>sessions := sessions st @ [current_session st @ [msg]],
                 current_session := [], in_session := False\<rparr>
         else st\<lparr>current_session := current_session st @ [msg]\<rparr>)
      else st)"

fun seg_loop :: "(nat \<Rightarrow> bool) \<Rightarrow> seg_state \<Rightarrow> message list \<Rightarrow> seg_state" where
  "seg_loop nd st [] = st"
| "seg_loop nd st (msg # messages) = seg_loop nd (seg_step nd st msg) messages"

definition extract_rpg_sessions :: "(nat \<Rightarrow> bool) \<Rightarrow> message list \<Rightarrow> message list list" where
  "extract_rpg_sessions nd messages =
     (let st = seg_loop nd seg_init messages
      in if in_session st \<and> current_session st \<noteq> []
         then sessions st @ [current_session st] else sessions st)"

section \<open>Identity tables and rendering\<close>

text \<open>
  The six character names of the tables, each a bracketed title (U+3010 ... U+3011)
  followed by a name.
\<close>

definition role_oracle :: ustring where
  "role_oracle = [12304, 31070, 35861, 22307, 21647, 12305, 21566, 21363, 20116, 22768]"

definition role_mediator :: ustring where
  "role_mediator = [12304, 35843, 20572, 32773, 12305, 38463, 24503, 21202]"

definition role_nineball :: ustring where
  "role_nineball = [12304, 20061, 21495, 29699, 12305, 29590, 28186, 24033]"

definition role_blackmark :: ustring where
  "role_blackmark = [12304, 40657, 21360, 12305, 21152, 23572, 25991]"

definition role_dodder :: ustring where
  "role_dodder = [12304, 33759, 19997, 23376, 12305, 21313, 19971]"

definition role_epoch :: ustring where
  "role_epoch = [12304, 26102, 20195, 12305, 33406, 24085, 20811]"

text \<open>
  \<open>NAME_MAPPING\<close> (lines 20 to 35): six nicknames, then six account numbers written in
  decimal. \<open>COLOR_MAPPING\<close> (lines 38 to 45): the colour of each character name. Both are
  dictionaries with distinct keys, looked up with \<open>map_of\<close>.
\<close>

definition NAME_MAPPING :: "(ustring \<times> ustring) list" where
  "NAME_MAPPING =
     [([22833, 35821], role_oracle),
      ([104, 101, 97, 118, 121, 128028], role_mediator),
      ([71, 97, 49, 97, 120, 105, 97, 110], role_nineball),
      ([38543, 27874, 36880, 27969, 21046, 20316, 22996, 21592, 20250], role_blackmark),
      ([26790, 20043, 28023], role_dodder),
      ([26080, 31958, 24120, 28201, 30334, 20107, 70, 69, 83], role_epoch),
      ([57, 48, 55, 53, 54, 52, 49, 53, 53], role_oracle),
      ([50, 55, 48, 52, 53, 56, 55, 53, 57, 57], role_mediator),
      ([49, 52, 53, 54, 56, 52, 54, 48, 57, 48], role_nineball),
      ([49, 54, 57, 53, 53, 51, 57, 48, 52, 48], role_blackmark),
      ([49, 50, 49, 52, 53, 56, 49, 49, 57, 53], role_dodder),
      ([54, 53, 49, 52, 54, 52, 49, 54, 57], role_epoch)]"

datatype rgb = RGBColor nat nat nat

definition COLOR_MAPPING :: "(ustring \<times> rgb) list" where
  "COLOR_MAPPING =
     [(role_oracle, RGBColor 255 0 0),
      (role_mediator, RGBColor 128 0 128),
      (role_nineball, RGBColor 139 69 19),
      (role_blackmark, RGBColor 0 0 0),
      (role_dodder, RGBColor 0 0 255),
      (role_epoch, RGBColor 128 128 128)]"

text \<open>
  Lines 160 to 182: the body of the loop of \<open>process_rpg_session\<close>, which builds a new
  dictionary for each message, and the loop itself.
\<close>

definition process_message :: "(nat \<Rightarrow> bool) \<Rightarrow> message \<Rightarrow> message" where
  "process_message nd msg =
     (let uname = (case map_of NAME_MAPPING (username msg) of
                     Some n \<Rightarrow> n | None \<Rightarrow> username msg);
          is_start_marker = re_search (start_pattern nd) (content msg);
          is_end_marker = (content msg = save_marker);
          tstamp = (if is_start_marker \<or> is_end_marker then timestamp msg else None)
      in \<lparr>username = uname, timestamp = tstamp, content = content msg\<rparr>)"

definition process_rpg_session :: "(nat \<Rightarrow> bool) \<Rightarrow> message list \<Rightarrow> message list" where
  "process_rpg_session nd session = map (process_message nd) session"

text \<open>
  A run of the document carries its text, the colour of its font (\<open>None\<close> when the source
  does not assign one) and whether it is bold. The document is the list of its headings
  and paragraphs; saving it to a file is outside the model.
\<close>

record run =
  run_text :: ustring
  run_color :: "rgb option"
  run_bold :: bool

datatype block = Heading ustring nat | Paragraph "run list"

text \<open>
  Lines 203 to 222, for a processed message: the four runs of its paragraph.
  \<open>if msg['timestamp']:\<close> holds when the timestamp is neither \<open>None\<close> nor empty.
\<close>

definition run_username :: "message \<Rightarrow> run" where
  "run_username msg =
     \<lparr>run_text = username msg, run_color = map_of COLOR_MAPPING (username msg), run_bold = True\<rparr>"

definition run_time :: "message \<Rightarrow> run option" where
  "run_time msg =
     (case timestamp msg of
        None \<Rightarrow> None
      | Some ts \<Rightarrow>
          if ts \<noteq> []
          then Some \<lparr>run_text = [32, 91] @ ts @ [93],
                     run_color = map_of COLOR_MAPPING (username msg), run_bold = False\<rparr>
          else None)"

definition run_colon :: "message \<Rightarrow> run" where
  "run_colon msg =
     \<lparr>run_text = [58, 32], run_color = map_of COLOR_MAPPING (username msg), run_bold = False\<rparr>"

definition run_content :: "message \<Rightarrow> run" where
  "run_content msg =
     \<lparr>run_text = content msg, run_color = map_of COLOR_MAPPING (username msg), run_bold = False\<rparr>"

definition paragraph_runs :: "message \<Rightarrow> run list" where
  "paragraph_runs msg =
     [run_username msg] @ (case run_time msg of None \<Rightarrow> [] | Some r \<Rightarrow> [r]) @
     [run_colon msg, run_content msg]"

definition render_session :: "(nat \<Rightarrow> bool) \<Rightarrow> message list \<Rightarrow> block list" where
  "render_session nd session =
     map (\<lambda>msg. Paragraph (paragraph_runs msg)) (process_rpg_session nd session)"

text \<open>
  Lines 188 to 222: the title (\<open>RPG\<close> and U+4F1A U+8BDD U+8BB0 U+5F55, level 0), then for
  the session number \<open>idx\<close>, counted from 1, a heading (U+4F1A U+8BDD, a space and the
  number, level 1) and the paragraphs of the session.
\<close>

definition create_word_document :: "(nat \<Rightarrow> bool) \<Rightarrow> message list list \<Rightarrow> block list" where
  "create_word_document nd sessions_in =
     Heading [82, 80, 71, 20250, 35805, 35760, 24405] 0 #
     concat (map (\<lambda>(idx, session).
                    Heading ([20250, 35805, 32] @ py_str idx) 1 # render_session nd session)
                 (zip [1 ..< length sessions_in + 1] sessions_in))"

section \<open>Properties of the segmenter\<close>

definition is_start :: "(nat \<Rightarrow> bool) \<Rightarrow> message \<Rightarrow> bool" where
  "is_start nd m = re_search (start_pattern nd) (content m)"

definition is_save :: "message \<Rightarrow> bool" where
  "is_save m = (content m = save_marker)"

text \<open>
  The shape of the session being accumulated (\<open>open_ok\<close>) and of an emitted session
  (\<open>closed_ok\<close>): a start marker first, no start marker later, and the end marker nowhere
  but, in an emitted session, in the last place.
\<close>

definition open_ok :: "(nat \<Rightarrow> bool) \<Rightarrow> message list \<Rightarrow> bool" where
  "open_ok nd S =
     (S \<noteq> [] \<and> is_start nd (hd S) \<and> (\<forall>m \<in> set (tl S). \<not> is_start nd m \<and> \<not> is_save m))"

definition closed_ok :: "(nat \<Rightarrow> bool) \<Rightarrow> message list \<Rightarrow> bool" where
  "closed_ok nd S =
     (S \<noteq> [] \<and> is_start nd (hd S) \<and> (\<forall>m \<in> set (tl S). \<not> is_start nd m)
      \<and> (\<forall>m \<in> set (butlast (tl S)). \<not> is_save m))"

definition seg_inv :: "(nat \<Rightarrow> bool) \<Rightarrow> seg_state \<Rightarrow> bool" where
  "seg_inv nd st =
     ((if in_session st then open_ok nd (current_session st) else current_session st = [])
      \<and> (\<forall>S \<in> set (sessions st). closed_ok nd S))"

lemma open_closed: "open_ok nd S \<Longrightarrow> closed_ok nd S"
  by (auto simp: open_ok_def closed_ok_def dest: in_set_butlastD)

lemma open_snoc_closed:
  "open_ok nd S \<Longrightarrow> \<not> is_start nd m \<Longrightarrow> closed_ok nd (S @ [m])"
  by (cases S) (auto simp: open_ok_def closed_ok_def)

lemma open_snoc:
  "open_ok nd S \<Longrightarrow> \<not> is_start nd m \<Longrightarrow> \<not> is_save m \<Longrightarrow> open_ok nd (S @ [m])"
  by (cases S) (auto simp: open_ok_def)

lemma seg_inv_init: "seg_inv nd seg_init"
  by (simp add: seg_inv_def seg_init_def)

lemma seg_inv_step: "seg_inv nd st \<Longrightarrow> seg_inv nd (seg_step nd st msg)"
  unfolding seg_inv_def seg_step_def
  by (auto simp: open_closed open_snoc open_snoc_closed is_start_def is_save_def open_ok_def)

lemma seg_inv_loop: "seg_inv nd st \<Longrightarrow> seg_inv nd (seg_loop nd st messages)"
  by (induction messages arbitrary: st) (auto simp: seg_inv_step)

lemma seg_inv_reachable: "seg_inv nd (seg_loop nd seg_init messages)"
  by (rule seg_inv_loop [OF seg_inv_init])

lemma extract_closed_ok:
  assumes "S \<in> set (extract_rpg_sessions nd messages)"
  shows "closed_ok nd S"
  using assms seg_inv_reachable [of nd messages]
  by (auto simp: extract_rpg_sessions_def Let_def seg_inv_def open_closed split: if_splits)

lemma seg_loop_append:
  "seg_loop nd st (xs @ ys) = seg_loop nd (seg_loop nd st xs) ys"
  by (induction xs arbitrary: st) auto

lemma seg_loop_plain:
  "in_session st \<Longrightarrow> \<forall>m \<in> set ms. \<not> is_start nd m \<and> \<not> is_save m \<Longrightarrow>
   seg_loop nd st ms = st\<lparr>current_session := current_session st @ ms\<rparr>"
  by (induction ms arbitrary: st) (auto simp: seg_step_def is_start_def is_save_def)

lemma reseg_closed:
  assumes "closed_ok nd S"
  shows "extract_rpg_sessions nd S = [S]"
proof -
  from assms obtain m0 rest where S: "S = m0 # rest" and st: "is_start nd m0"
    and ns: "\<forall>m \<in> set rest. \<not> is_start nd m"
    and nv: "\<forall>m \<in> set (butlast rest). \<not> is_save m"
    by (cases S) (auto simp: closed_ok_def)
  let ?s1 = "\<lparr>sessions = [], in_session = True, current_session = [m0]\<rparr>"
  have s1: "seg_step nd seg_init m0 = ?s1"
    using st by (simp add: seg_step_def seg_init_def is_start_def)
  show ?thesis
  proof (cases rest rule: rev_cases)
    case Nil
    with S s1 show ?thesis by (simp add: extract_rpg_sessions_def)
  next
    case (snoc r l)
    have plain: "\<forall>m \<in> set r. \<not> is_start nd m \<and> \<not> is_save m"
      using ns nv snoc by auto
    have "seg_loop nd ?s1 r = ?s1\<lparr>current_session := current_session ?s1 @ r\<rparr>"
      by (rule seg_loop_plain) (use plain in auto)
    then have r: "seg_loop nd ?s1 r =
        \<lparr>sessions = [], in_session = True, current_session = m0 # r\<rparr>"
      by simp
    have nl: "\<not> is_start nd l" using ns snoc by simp
    have "seg_loop nd seg_init S = seg_step nd (seg_loop nd ?s1 r) l"
      by (simp add: S snoc s1 seg_loop_append)
    then show ?thesis using nl
      by (simp add: r extract_rpg_sessions_def seg_step_def is_start_def S snoc)
  qed
qed

text \<open>
  An input that ends inside a session: after any messages, a start marker followed by
  messages that are neither start nor end markers. The result is that of the earlier
  messages followed by the unterminated session.
\<close>

lemma open_tail_emitted:
  assumes "is_start nd m" and "\<forall>x \<in> set tail. \<not> is_start nd x \<and> \<not> is_save x"
  shows "extract_rpg_sessions nd (earlier @ m # tail) = extract_rpg_sessions nd earlier @ [m # tail]"
proof -
  let ?st = "seg_loop nd seg_init earlier"
  let ?out = "if in_session ?st \<and> current_session ?st \<noteq> []
              then sessions ?st @ [current_session ?st] else sessions ?st"
  let ?s1 = "\<lparr>sessions = ?out, in_session = True, current_session = [m]\<rparr>"
  have 1: "seg_step nd ?st m = ?s1"
    using assms(1) by (simp add: seg_step_def is_start_def)
  have "seg_loop nd ?s1 tail = ?s1\<lparr>current_session := current_session ?s1 @ tail\<rparr>"
    by (rule seg_loop_plain) (use assms(2) in auto)
  then have 2: "seg_loop nd ?s1 tail =
      \<lparr>sessions = ?out, in_session = True, current_session = m # tail\<rparr>"
    by simp
  have "seg_loop nd seg_init (earlier @ m # tail) = seg_loop nd (seg_step nd ?st m) tail"
    by (simp add: seg_loop_append)
  then have "seg_loop nd seg_init (earlier @ m # tail) =
      \<lparr>sessions = ?out, in_session = True, current_session = m # tail\<rparr>"
    unfolding 1 2 .
  then show ?thesis
    by (simp add: extract_rpg_sessions_def Let_def)
qed

text \<open>
  Three messages used as concrete input: a start marker (two em dashes, \<open>CST5016/08/14\<close>,
  two em dashes) sent by \<open>A\<close> at \<open>t\<close>, the chatter \<open>hi\<close> sent by \<open>B\<close>, and a second start
  marker (\<open>CST5017/1/2\<close>) sent by \<open>A\<close>.
\<close>

definition ex_start :: message where
  "ex_start = \<lparr>username = [65], timestamp = Some [116],
     content = [8212, 8212, 67, 83, 84, 53, 48, 49, 54, 47, 48, 56, 47, 49, 52, 8212, 8212]\<rparr>"

definition ex_chat :: message where
  "ex_chat = \<lparr>username = [66], timestamp = Some [116], content = [104, 105]\<rparr>"

definition ex_start2 :: message where
  "ex_start2 = \<lparr>username = [65], timestamp = None,
     content = [8212, 8212, 67, 83, 84, 53, 48, 49, 55, 47, 49, 47, 50, 8212, 8212]\<rparr>"

lemma ex_start_matches: "re_search (start_pattern ascii_digit) (content ex_start)"
  by (simp add: ex_start_def start_pattern_def ascii_digit_def)

lemma ex_start2_matches: "re_search (start_pattern ascii_digit) (content ex_start2)"
  by (simp add: ex_start2_def start_pattern_def ascii_digit_def)

lemma ex_chat_no_match: "\<not> re_search (start_pattern ascii_digit) (content ex_chat)"
  by (simp add: ex_chat_def start_pattern_def ascii_digit_def)

lemma ex_chat_not_save: "content ex_chat \<noteq> save_marker"
  by (simp add: ex_chat_def save_marker_def)

lemma ex_loop_two:
  "seg_loop ascii_digit seg_init [ex_start, ex_chat] =
     \<lparr>sessions = [], in_session = True, current_session = [ex_start, ex_chat]\<rparr>"
  by (simp add: seg_step_def seg_init_def ex_start_matches ex_chat_no_match ex_chat_not_save)

lemma ex_extract_two:
  "extract_rpg_sessions ascii_digit [ex_start, ex_chat] = [[ex_start, ex_chat]]"
  unfolding extract_rpg_sessions_def ex_loop_two by simp

text \<open>
  Claim C1. Every session the segmenter emits, whichever way it was closed (by the end
  marker, by a new start marker, or by the end of the input), is a non-empty list of
  messages, and the body of its first message matches the start-marker pattern.
\<close>

theorem sessions_begin_with_start_marker:
  assumes "S \<in> set (extract_rpg_sessions nd messages)"
  shows "S \<noteq> [] \<and> re_search (start_pattern nd) (content (hd S))"
  using extract_closed_ok [OF assms] by (simp add: closed_ok_def is_start_def)

theorem sessions_begin_with_start_marker_witness:
  "[ex_start, ex_chat] \<in> set (extract_rpg_sessions ascii_digit [ex_start, ex_chat])
   \<and> [ex_start, ex_chat] \<noteq> []
   \<and> re_search (start_pattern ascii_digit) (content (hd [ex_start, ex_chat]))"
proof -
  have h: "[ex_start, ex_chat] \<in> set (extract_rpg_sessions ascii_digit [ex_start, ex_chat])"
    by (simp add: ex_extract_two)
  show ?thesis
    using h sessions_begin_with_start_marker [OF h] by simp
qed

text \<open>
  Claim C2. Segmenting again the messages of an emitted session, as one flat list, gives
  exactly that one session: the same messages in the same order.
\<close>

theorem resegmenting_a_session_is_identity:
  assumes "S \<in> set (extract_rpg_sessions nd messages)"
  shows "extract_rpg_sessions nd S = [S]"
  by (rule reseg_closed) (rule extract_closed_ok [OF assms])

theorem resegmenting_a_session_is_identity_witness:
  "[ex_start, ex_chat] \<in> set (extract_rpg_sessions ascii_digit [ex_start, ex_chat, ex_start2])
   \<and> extract_rpg_sessions ascii_digit [ex_start, ex_chat] = [[ex_start, ex_chat]]"
proof -
  have "seg_loop ascii_digit seg_init ([ex_start, ex_chat] @ [ex_start2]) =
      \<lparr>sessions = [[ex_start, ex_chat]], in_session = True, current_session = [ex_start2]\<rparr>"
    unfolding seg_loop_append ex_loop_two
    by (simp add: seg_step_def ex_start2_matches)
  then have h: "[ex_start, ex_chat]
      \<in> set (extract_rpg_sessions ascii_digit [ex_start, ex_chat, ex_start2])"
    by (simp add: extract_rpg_sessions_def)
  show ?thesis
    using h resegmenting_a_session_is_identity [OF h] by simp
qed

text \<open>
  Claim C3. In a state the segmenter reaches inside an open session, a message whose body
  matches the start-marker pattern has the accumulated session emitted without that
  message, and opens a fresh session that consists of that message. The messages held
  by the state (the emitted sessions followed by the open one) are those held before
  followed by the new message, each once.
\<close>

theorem start_marker_inside_session_forces_close:
  assumes "st = seg_loop nd seg_init earlier"
    and "in_session st"
    and "re_search (start_pattern nd) (content msg)"
  shows "seg_step nd st msg =
           \<lparr>sessions = sessions st @ [current_session st], in_session = True,
            current_session = [msg]\<rparr>
         \<and> current_session st \<noteq> []
         \<and> concat (sessions (seg_step nd st msg)) @ current_session (seg_step nd st msg)
             = (concat (sessions st) @ current_session st) @ [msg]"
proof -
  have "seg_inv nd st" using assms(1) seg_inv_reachable by simp
  with assms(2) have ne: "current_session st \<noteq> []"
    by (simp add: seg_inv_def open_ok_def)
  with assms(2,3) show ?thesis
    by (simp add: seg_step_def)
qed

theorem start_marker_inside_session_forces_close_witness:
  "seg_step ascii_digit (seg_loop ascii_digit seg_init [ex_start, ex_chat]) ex_start2 =
     \<lparr>sessions = [[ex_start, ex_chat]], in_session = True, current_session = [ex_start2]\<rparr>"
proof -
  let ?st = "seg_loop ascii_digit seg_init [ex_start, ex_chat]"
  have a: "?st = seg_loop ascii_digit seg_init [ex_start, ex_chat]" by simp
  have b: "in_session ?st" unfolding ex_loop_two by simp
  show ?thesis
    using start_marker_inside_session_forces_close [OF a b ex_start2_matches]
    unfolding ex_loop_two by simp
qed

text \<open>
  Claim C8. When the input ends while the segmenter is inside an open session that holds
  at least one message, that session is emitted, as the last session of the result.
\<close>

theorem unterminated_session_is_emitted:
  assumes "in_session (seg_loop nd seg_init messages)"
    and "current_session (seg_loop nd seg_init messages) \<noteq> []"
  shows "extract_rpg_sessions nd messages \<noteq> []
         \<and> last (extract_rpg_sessions nd messages)
             = current_session (seg_loop nd seg_init messages)
         \<and> butlast (extract_rpg_sessions nd messages)
             = sessions (seg_loop nd seg_init messages)"
  using assms by (simp add: extract_rpg_sessions_def Let_def)

theorem unterminated_session_is_emitted_witness:
  "in_session (seg_loop ascii_digit seg_init [ex_start, ex_chat])
   \<and> last (extract_rpg_sessions ascii_digit [ex_start, ex_chat]) = [ex_start, ex_chat]"
proof -
  have a: "in_session (seg_loop ascii_digit seg_init [ex_start, ex_chat])"
    unfolding ex_loop_two by simp
  have b: "current_session (seg_loop ascii_digit seg_init [ex_start, ex_chat]) \<noteq> []"
    unfolding ex_loop_two by simp
  show ?thesis
    using a unterminated_session_is_emitted [OF a b] unfolding ex_loop_two by simp
qed

section \<open>Properties of the renderer\<close>

lemma upt_from_one_nth: "k < n \<Longrightarrow> [1 ..< n + 1] ! k = k + 1"
  using nth_upt [of 1 k "n + 1"] by simp

lemma in_concat_map: "x \<in> set zs \<Longrightarrow> b \<in> set (f x) \<Longrightarrow> b \<in> set (concat (map f zs))"
  by auto

lemma paragraph_in_document:
  assumes "session \<in> set sessions_in" "msg \<in> set session"
  shows "Paragraph (paragraph_runs (process_message nd msg)) \<in> set (create_word_document nd sessions_in)"
proof -
  from assms(1) obtain k where k: "k < length sessions_in" "sessions_in ! k = session"
    by (auto simp: in_set_conv_nth)
  have z: "zip [1 ..< length sessions_in + 1] sessions_in ! k = (k + 1, session)"
    using k upt_from_one_nth [of k "length sessions_in"] by (simp del: upt_Suc)
  have "k < length (zip [1 ..< length sessions_in + 1] sessions_in)"
    using k by simp
  then have "zip [1 ..< length sessions_in + 1] sessions_in ! k
      \<in> set (zip [1 ..< length sessions_in + 1] sessions_in)"
    by (rule nth_mem)
  then have mem: "(k + 1, session) \<in> set (zip [1 ..< length sessions_in + 1] sessions_in)"
    using z by simp
  have par: "Paragraph (paragraph_runs (process_message nd msg)) \<in> set (render_session nd session)"
    using assms(2) by (auto simp: render_session_def process_rpg_session_def)
  let ?f = "\<lambda>(idx, session).
      Heading ([20250, 35805, 32] @ py_str idx) 1 # render_session nd session"
  let ?zs = "zip [1 ..< length sessions_in + 1] sessions_in"
  let ?p = "Paragraph (paragraph_runs (process_message nd msg))"
  have b: "?p \<in> set (?f (k + 1, session))"
    using par by simp
  have "?p \<in> set (concat (map ?f ?zs))"
    using in_concat_map [of "(k + 1, session)" ?zs ?p ?f] mem b by blast
  then show ?thesis
    unfolding create_word_document_def by (rule list.set_intros(2))
qed

lemma process_message_username_unmapped:
  "map_of NAME_MAPPING (username msg) = None \<Longrightarrow> username (process_message nd msg) = username msg"
  by (simp add: process_message_def Let_def)

lemma paragraph_runs_color:
  "r \<in> set (paragraph_runs m) \<Longrightarrow> run_color r = map_of COLOR_MAPPING (username m)"
  by (auto simp: paragraph_runs_def run_username_def run_time_def run_colon_def run_content_def
           split: option.splits if_splits)

text \<open>
  Claim C6 says that an author absent from the name table is rendered under the raw
  identifier and with no colour on any run. The name is indeed unchanged, but the colour
  is looked up under the displayed name (lines 204 to 222), whatever its origin: an author
  whose raw identifier is itself one of the character names, here the fourth one, is
  absent from \<open>NAME_MAPPING\<close> and still rendered in that character's colour.
\<close>

definition ex_unmapped_colored :: message where
  "ex_unmapped_colored = \<lparr>username = role_blackmark, timestamp = None, content = [104, 105]\<rparr>"

theorem unmapped_author_colored_counterexample:
  "map_of NAME_MAPPING (username ex_unmapped_colored) = None
   \<and> map run_text (paragraph_runs (process_message ascii_digit ex_unmapped_colored))
       = [role_blackmark, [58, 32], [104, 105]]
   \<and> map run_color (paragraph_runs (process_message ascii_digit ex_unmapped_colored))
       = [Some (RGBColor 0 0 0), Some (RGBColor 0 0 0), Some (RGBColor 0 0 0)]"
proof -
  have n: "map_of NAME_MAPPING role_blackmark = None"
    by (simp add: NAME_MAPPING_def role_blackmark_def)
  have c: "map_of COLOR_MAPPING role_blackmark = Some (RGBColor 0 0 0)"
    by (simp add: COLOR_MAPPING_def role_blackmark_def role_oracle_def role_mediator_def
          role_nineball_def)
  have p: "process_message ascii_digit ex_unmapped_colored = ex_unmapped_colored"
    by (simp add: process_message_def ex_unmapped_colored_def n)
  show ?thesis
    unfolding p
    by (simp add: ex_unmapped_colored_def n c paragraph_runs_def run_username_def run_time_def
          run_colon_def run_content_def)
qed

text \<open>
  Claim C6, amended. For an author who is absent from the name table and whose raw
  identifier is not a key of the colour table either, the paragraph of the message in the
  document shows the identifier unchanged and no run of it has a colour.
\<close>

theorem unmapped_uncolored_author_renders_plain:
  assumes "map_of NAME_MAPPING (username msg) = None"
    and "map_of COLOR_MAPPING (username msg) = None"
    and "session \<in> set sessions_in" and "msg \<in> set session"
  shows "Paragraph (paragraph_runs (process_message nd msg)) \<in> set (create_word_document nd sessions_in)
     \<and> run_text (run_username (process_message nd msg)) = username msg
     \<and> (\<forall>r \<in> set (paragraph_runs (process_message nd msg)). run_color r = None)"
  using assms paragraph_in_document [OF assms(3,4), of nd]
  by (auto simp: process_message_username_unmapped run_username_def dest!: paragraph_runs_color)

lemma ex_chat_unmapped: "map_of NAME_MAPPING (username ex_chat) = None"
  by (simp add: NAME_MAPPING_def ex_chat_def)

lemma ex_chat_uncolored: "map_of COLOR_MAPPING (username ex_chat) = None"
  by (simp add: COLOR_MAPPING_def ex_chat_def role_blackmark_def role_oracle_def role_mediator_def
          role_nineball_def role_dodder_def role_epoch_def)

lemma ex_chat_processed:
  "process_message ascii_digit ex_chat =
     \<lparr>username = [66], timestamp = None, content = [104, 105]\<rparr>"
  using ex_chat_no_match ex_chat_not_save ex_chat_unmapped
  by (simp add: process_message_def Let_def) (simp add: ex_chat_def)

theorem unmapped_uncolored_author_renders_plain_witness:
  "Paragraph (paragraph_runs (process_message ascii_digit ex_chat))
      \<in> set (create_word_document ascii_digit [[ex_start, ex_chat]])
   \<and> run_text (run_username (process_message ascii_digit ex_chat)) = [66]
   \<and> map run_color (paragraph_runs (process_message ascii_digit ex_chat)) = [None, None, None]"
proof -
  have s: "[ex_start, ex_chat] \<in> set [[ex_start, ex_chat]]" by simp
  have m: "ex_chat \<in> set [ex_start, ex_chat]" by simp
  have u: "username ex_chat = [66]" by (simp add: ex_chat_def)
  have c: "map_of COLOR_MAPPING [66] = None"
    using ex_chat_uncolored unfolding u .
  have r: "map run_color (paragraph_runs (process_message ascii_digit ex_chat))
      = [None, None, None]"
    unfolding ex_chat_processed
    by (simp add: paragraph_runs_def run_username_def run_time_def run_colon_def
          run_content_def c)
  show ?thesis
    using unmapped_uncolored_author_renders_plain
            [OF ex_chat_unmapped ex_chat_uncolored s m, of ascii_digit] r
    unfolding u by simp
qed

lemma process_rpg_session_nth:
  "k < length session \<Longrightarrow> process_rpg_session nd session ! k = process_message nd (session ! k)"
  by (simp add: process_rpg_session_def)

text \<open>
  Claim C7. In a rendered session the paragraph of a message has a timestamp run only if
  the body of the message matches the start-marker pattern or equals the end marker; the
  paragraph of any other message consists of the name, the separator and the body, even
  when the message carries a timestamp.
\<close>

theorem timestamp_rendered_only_on_markers:
  assumes "k < length session"
  shows "(run_time (process_rpg_session nd session ! k) \<noteq> None \<longrightarrow>
            re_search (start_pattern nd) (content (session ! k)) \<or> content (session ! k) = save_marker)
     \<and> (\<not> re_search (start_pattern nd) (content (session ! k)) \<and> content (session ! k) \<noteq> save_marker \<longrightarrow>
            render_session nd session ! k =
              Paragraph [run_username (process_message nd (session ! k)),
                         run_colon (process_message nd (session ! k)),
                         run_content (process_message nd (session ! k))])"
  using assms
  by (simp add: render_session_def process_rpg_session_def paragraph_runs_def run_time_def
        process_message_def Let_def)

theorem timestamp_rendered_only_on_markers_witness:
  "timestamp ex_chat = Some [116]
   \<and> render_session ascii_digit [ex_start, ex_chat] ! 1 =
       Paragraph [\<lparr>run_text = [66], run_color = None, run_bold = True\<rparr>,
                  \<lparr>run_text = [58, 32], run_color = None, run_bold = False\<rparr>,
                  \<lparr>run_text = [104, 105], run_color = None, run_bold = False\<rparr>]
   \<and> run_time (process_rpg_session ascii_digit [ex_start, ex_chat] ! 0)
       = Some \<lparr>run_text = [32, 91, 116, 93], run_color = None, run_bold = False\<rparr>"
proof -
  have k: "(1::nat) < length [ex_start, ex_chat]" by simp
  note p = ex_chat_processed
  have q: "process_message ascii_digit ex_start = ex_start"
    using ex_start_matches
    by (simp add: process_message_def Let_def) (simp add: ex_start_def NAME_MAPPING_def)
  have c: "map_of COLOR_MAPPING [66] = None" "map_of COLOR_MAPPING [65] = None"
    by (simp_all add: COLOR_MAPPING_def  role_blackmark_def role_oracle_def role_mediator_def
          role_nineball_def role_dodder_def role_epoch_def)
  have t: "timestamp ex_chat = Some [116]" by (simp add: ex_chat_def)
  have r0: "run_time (process_rpg_session ascii_digit [ex_start, ex_chat] ! 0)
       = Some \<lparr>run_text = [32, 91, 116, 93], run_color = None, run_bold = False\<rparr>"
    by (simp add: process_rpg_session_def q) (simp add: ex_start_def run_time_def c)
  show ?thesis
    using timestamp_rendered_only_on_markers [OF k, of ascii_digit] ex_chat_no_match ex_chat_not_save t r0
    by (simp add: p run_username_def run_colon_def run_content_def c)
qed

section \<open>Properties of the reconstructor\<close>

subsection \<open>Unfolding the loops on concrete input\<close>

lemma py_replace_Nil: "py_replace old new [] = (if old = [] then new else [])"
  by (subst py_replace.simps) simp

lemma py_replace_Cons:
  "old \<noteq> [] \<Longrightarrow> py_replace old new (x # xs) =
     (if prefix old (x # xs) then new @ py_replace old new (drop (length old) (x # xs))
      else x # py_replace old new xs)"
  by (subst py_replace.simps) simp

lemma skip_mentions_unfold:
  "skip_mentions lines i =
     (if i + 1 < length lines \<and> py_strip (lines ! (i + 1)) \<noteq> [] \<and>
         py_startswith (py_strip (lines ! (i + 1))) mention_label
      then skip_mentions lines (i + 1) else Some i)"
  by (subst skip_mentions.simps) simp

lemma parse_loop_step:
  "i < length lines \<Longrightarrow> parse_record lines i = Some (i', new) \<Longrightarrow>
   parse_loop lines i messages = parse_loop lines (i' + 1) (messages @ new)"
  by (subst parse_loop.simps) simp

lemma parse_loop_done: "\<not> i < length lines \<Longrightarrow> parse_loop lines i messages = Some messages"
  by (subst parse_loop.simps) simp

lemmas py_eval = py_strip_def py_isspace_def py_startswith_def py_endswith_def
  time_label_def content_label_def mention_label_def py_replace_Nil py_replace_Cons
  suffix_to_prefix first_content_line_def

lemma parse_loop_step_to:
  "i < length lines \<Longrightarrow> parse_record lines i = Some (i', new) \<Longrightarrow> j = i' + 1 \<Longrightarrow>
   parse_loop lines i messages = parse_loop lines j (messages @ new)"
  by (simp add: parse_loop_step)

subsection \<open>The accumulation loop\<close>

lemma pop_blank_tail_eq: "pop_blank_tail cl = rev (dropWhile (\<lambda>l. l = []) (rev cl))"
proof (induction cl rule: rev_induct)
  case Nil
  show ?case by (subst pop_blank_tail.simps) simp
next
  case (snoc x xs)
  then show ?case by (subst pop_blank_tail.simps) simp
qed

text \<open>
  \<open>blank_at\<close> and \<open>stop_at\<close> are the two tests of the loop on a line: it is empty once
  stripped, or it is a mention line or the first line of a header. \<open>acc_run\<close> describes
  the \<open>k\<close> lines after index \<open>i\<close> that the loop accumulates, and \<open>acc_stop\<close> the line
  at which it stops; \<open>ce\<close> is the value of \<open>consecutive_empty\<close> on entry.
\<close>

definition acc_stop :: "ustring list \<Rightarrow> nat \<Rightarrow> nat \<Rightarrow> nat \<Rightarrow> bool" where
  "acc_stop lines i ce k =
     (length lines \<le> i + 1 + k \<or> stop_at lines (i + 1 + k) \<or>
      (blank_at lines (i + 1 + k) \<and> (if k = 0 then ce = 1 else blank_at lines (i + k))))"

definition acc_run :: "ustring list \<Rightarrow> nat \<Rightarrow> nat \<Rightarrow> nat \<Rightarrow> bool" where
  "acc_run lines i ce k =
     ((k = 0 \<or> i + k < length lines)
      \<and> (\<forall>d < k. \<not> stop_at lines (i + 1 + d))
      \<and> (\<forall>d. d + 1 < k \<longrightarrow> \<not> (blank_at lines (i + 1 + d) \<and> blank_at lines (i + 2 + d)))
      \<and> (ce = 1 \<and> 0 < k \<longrightarrow> \<not> blank_at lines (i + 1)))"

lemma acc_run_step:
  assumes "i + 1 < length lines" "\<not> stop_at lines (i + 1)"
    and "acc_run lines (i + 1) ce' k'"
    and "ce' = (if blank_at lines (i + 1) then 1 else 0)"
    and "blank_at lines (i + 1) \<longrightarrow> ce = 0"
  shows "acc_run lines i ce (Suc k')"
  unfolding acc_run_def
proof (intro conjI allI impI)
  show "Suc k' = 0 \<or> i + Suc k' < length lines"
    using assms(1,3) by (auto simp: acc_run_def)
next
  fix d assume "d < Suc k'"
  then show "\<not> stop_at lines (i + 1 + d)"
    using assms(2,3) by (cases d) (auto simp: acc_run_def)
next
  fix d assume d: "d + 1 < Suc k'"
  show "\<not> (blank_at lines (i + 1 + d) \<and> blank_at lines (i + 2 + d))"
  proof (cases d)
    case 0
    with d assms(3,4) show ?thesis by (auto simp: acc_run_def)
  next
    case (Suc d')
    with d assms(3) have "\<not> (blank_at lines (i + 1 + 1 + d') \<and> blank_at lines (i + 1 + 2 + d'))"
      by (auto simp: acc_run_def)
    with Suc show ?thesis by (simp add: add.commute add.left_commute)
  qed
next
  assume "ce = 1 \<and> 0 < Suc k'"
  with assms(5) show "\<not> blank_at lines (i + 1)" by auto
qed

lemma acc_stop_step:
  assumes "acc_stop lines (i + 1) ce' k'"
    and "ce' = (if blank_at lines (i + 1) then 1 else 0)"
  shows "acc_stop lines i ce (Suc k')"
  using assms by (cases k') (auto simp: acc_stop_def split: if_splits)

lemma map_offsets_Suc:
  "l # map (\<lambda>d. py_strip (lines ! (i + 1 + 1 + d))) [0 ..< k]
     = map (\<lambda>d. py_strip (lines ! (i + 1 + d))) [0 ..< Suc k]"
  if "l = py_strip (lines ! (i + 1))"
  using that by (simp add: map_upt_Suc del: upt_Suc)

lemma accumulate_char:
  assumes "ce \<le> 1"
  shows "\<exists>k. accumulate lines i ce cl
               = Some (i + k, cl @ map (\<lambda>d. py_strip (lines ! (i + 1 + d))) [0 ..< k])
             \<and> acc_run lines i ce k \<and> acc_stop lines i ce k"
  using assms
proof (induction "length lines - i" arbitrary: i ce cl rule: less_induct)
  case less
  let ?P = "\<lambda>k. accumulate lines i ce cl
               = Some (i + k, cl @ map (\<lambda>d. py_strip (lines ! (i + 1 + d))) [0 ..< k])
             \<and> acc_run lines i ce k \<and> acc_stop lines i ce k"
  consider (e) "\<not> i + 1 < length lines"
    | (s) "i + 1 < length lines" "stop_at lines (i + 1)"
    | (b2) "i + 1 < length lines" "\<not> stop_at lines (i + 1)" "blank_at lines (i + 1)" "ce = 1"
    | (b1) "i + 1 < length lines" "\<not> stop_at lines (i + 1)" "blank_at lines (i + 1)" "ce = 0"
    | (n) "i + 1 < length lines" "\<not> stop_at lines (i + 1)" "\<not> blank_at lines (i + 1)"
    using less.prems by linarith
  then show ?case
  proof cases
    case e
    then have "?P 0"
      by (subst accumulate_unfold) (simp add: acc_run_def acc_stop_def)
    then show ?thesis by blast
  next
    case s
    then have "?P 0"
      by (subst accumulate_unfold) (simp add: acc_run_def acc_stop_def)
    then show ?thesis by blast
  next
    case b2
    then have "?P 0"
      by (subst accumulate_unfold) (simp add: acc_run_def acc_stop_def)
    then show ?thesis by blast
  next
    case b1
    have m: "length lines - (i + 1) < length lines - i" using b1(1) by simp
    from less.hyps [OF m, of 1 "cl @ [[]]"] obtain k' where
      k': "accumulate lines (i + 1) 1 (cl @ [[]])
             = Some (i + 1 + k', (cl @ [[]]) @ map (\<lambda>d. py_strip (lines ! (i + 1 + 1 + d))) [0 ..< k'])"
          "acc_run lines (i + 1) 1 k'" "acc_stop lines (i + 1) 1 k'"
      by auto
    have l: "[] = py_strip (lines ! (i + 1))" using b1(3) by (simp add: blank_at_def)
    have "accumulate lines i ce cl = accumulate lines (i + 1) 1 (cl @ [[]])"
      using b1 by (subst accumulate_unfold) simp
    then have "accumulate lines i ce cl
        = Some (i + Suc k', cl @ map (\<lambda>d. py_strip (lines ! (i + 1 + d))) [0 ..< Suc k'])"
      using k'(1) map_offsets_Suc [OF l, of k'] by simp
    moreover have "acc_run lines i ce (Suc k')"
      by (rule acc_run_step [OF b1(1,2) k'(2)]) (use b1 in auto)
    moreover have "acc_stop lines i ce (Suc k')"
      by (rule acc_stop_step [OF k'(3)]) (use b1 in auto)
    ultimately have "?P (Suc k')" by blast
    then show ?thesis by blast
  next
    case n
    have m: "length lines - (i + 1) < length lines - i" using n(1) by simp
    let ?l = "py_strip (lines ! (i + 1))"
    from less.hyps [OF m, of 0 "cl @ [?l]"] obtain k' where
      k': "accumulate lines (i + 1) 0 (cl @ [?l])
             = Some (i + 1 + k', (cl @ [?l]) @ map (\<lambda>d. py_strip (lines ! (i + 1 + 1 + d))) [0 ..< k'])"
          "acc_run lines (i + 1) 0 k'" "acc_stop lines (i + 1) 0 k'"
      by auto
    have "accumulate lines i ce cl = accumulate lines (i + 1) 0 (cl @ [?l])"
      using n by (subst accumulate_unfold) simp
    then have "accumulate lines i ce cl
        = Some (i + Suc k', cl @ map (\<lambda>d. py_strip (lines ! (i + 1 + d))) [0 ..< Suc k'])"
      using k'(1) map_offsets_Suc [OF refl, of lines i k'] by simp
    moreover have "acc_run lines i ce (Suc k')"
      by (rule acc_run_step [OF n(1,2) k'(2)]) (use n in auto)
    moreover have "acc_stop lines i ce (Suc k')"
      by (rule acc_stop_step [OF k'(3)]) (use n in auto)
    ultimately have "?P (Suc k')" by blast
    then show ?thesis by blast
  qed
qed

subsection \<open>Emitted messages\<close>

lemma parse_record_content:
  "parse_record lines i = Some (i', new) \<Longrightarrow> m \<in> set new \<Longrightarrow> content m \<noteq> []"
  by (auto simp: parse_record_def Let_def split: if_splits option.splits Option.bind_splits)

lemma parse_loop_total:
  "\<exists>ms. parse_loop lines i acc = Some ms \<and> prefix acc ms \<and>
        (\<forall>m \<in> set ms. m \<in> set acc \<or> content m \<noteq> [])"
proof (induction "length lines - i" arbitrary: i acc rule: less_induct)
  case less
  show ?case
  proof (cases "i < length lines")
    case False
    then show ?thesis by (simp add: parse_loop_done)
  next
    case True
    then obtain i' new where r: "parse_record lines i = Some (i', new)" "i \<le> i'"
      using parse_record_total by blast
    then have "length lines - (i' + 1) < length lines - i" using True by simp
    from less [OF this, of "acc @ new"] obtain ms where
      ms: "parse_loop lines (i' + 1) (acc @ new) = Some ms" "prefix (acc @ new) ms"
          "\<forall>m \<in> set ms. m \<in> set (acc @ new) \<or> content m \<noteq> []"
      by blast
    have "parse_loop lines i acc = Some ms"
      using parse_loop_step [OF True r(1)] ms(1) by simp
    moreover have "prefix acc ms" using ms(2) by (rule append_prefixD)
    moreover have "\<forall>m \<in> set ms. m \<in> set acc \<or> content m \<noteq> []"
      using ms(3) parse_record_content [OF r(1)] by auto
    ultimately show ?thesis by blast
  qed
qed

lemma parse_chat_log_total:
  "\<exists>ms. parse_chat_log lines = Some ms \<and> (\<forall>m \<in> set ms. content m \<noteq> [])"
  using parse_loop_total [of lines 0 "[]"] by (auto simp: parse_chat_log_def)

lemma parse_record_candidate:
  assumes "i < length lines" "py_strip (lines ! i) \<noteq> []" "py_endswith (py_strip (lines ! i)) [58]"
    and "read_timestamp lines i = Some (i1, ts)" "read_content lines i1 = Some (i2, c)"
    and "skip_mentions lines i2 = Some i3"
  shows "parse_record lines i =
           Some (i3, case c of None \<Rightarrow> []
                     | Some b \<Rightarrow> if b = [] then []
                                 else [\<lparr>username = butlast (py_strip (lines ! i)), timestamp = ts,
                                        content = b\<rparr>])"
  using assms by (simp add: parse_record_def Let_def split: option.splits)

text \<open>
  Claim C4. At a candidate username line the reconstructor reads the optional time line,
  the content field and the mention lines without raising, and appends a message exactly
  when the content field was found and is not empty; otherwise it appends nothing. In
  both cases the scan resumes at the line after those it consumed. The whole function
  returns a list of messages, each with a non-empty body.
\<close>

theorem message_emitted_iff_content_nonempty:
  assumes "i < length lines" "py_strip (lines ! i) \<noteq> []" "py_endswith (py_strip (lines ! i)) [58]"
  shows "\<exists>i1 ts i2 c i3 new.
           read_timestamp lines i = Some (i1, ts) \<and> read_content lines i1 = Some (i2, c)
         \<and> skip_mentions lines i2 = Some i3 \<and> i \<le> i3
         \<and> new = (case c of None \<Rightarrow> []
                   | Some b \<Rightarrow> if b = [] then []
                               else [\<lparr>username = butlast (py_strip (lines ! i)), timestamp = ts,
                                      content = b\<rparr>])
         \<and> parse_record lines i = Some (i3, new)
         \<and> (\<forall>acc. parse_loop lines i acc = parse_loop lines (i3 + 1) (acc @ new))
         \<and> (\<exists>ms. parse_chat_log lines = Some ms \<and> (\<forall>m \<in> set ms. content m \<noteq> []))"
proof -
  obtain i1 ts where 1: "read_timestamp lines i = Some (i1, ts)" "i \<le> i1"
    using read_timestamp_total by blast
  obtain i2 c where 2: "read_content lines i1 = Some (i2, c)" "i1 \<le> i2"
    using read_content_total by blast
  obtain i3 where 3: "skip_mentions lines i2 = Some i3" "i2 \<le> i3"
    using skip_mentions_total by blast
  let ?new = "case c of None \<Rightarrow> []
                   | Some b \<Rightarrow> if b = [] then []
                               else [\<lparr>username = butlast (py_strip (lines ! i)), timestamp = ts,
                                      content = b\<rparr>]"
  have r: "parse_record lines i = Some (i3, ?new)"
    by (rule parse_record_candidate [OF assms 1(1) 2(1) 3(1)])
  have l: "\<forall>acc. parse_loop lines i acc = parse_loop lines (i3 + 1) (acc @ ?new)"
    using parse_loop_step [OF assms(1) r] by blast
  have "i \<le> i3" using 1(2) 2(2) 3(2) by simp
  with 1(1) 2(1) 3(1) r l parse_chat_log_total [of lines] show ?thesis by blast
qed

text \<open>
  A header without content, followed by a record without time line: the lines \<open>A:\<close>,
  the time label and \<open>t\<close>, \<open>B:\<close>, the content label and \<open>yo\<close>, each ended by U+000A.
\<close>

definition ex_no_content :: "ustring list" where
  "ex_no_content = [[65, 58, 10], [26102, 38388, 58, 32, 116, 10], [66, 58, 10],
      [20869, 23481, 58, 32, 121, 111, 10]]"

lemma ex_no_content_record0: "parse_record ex_no_content 0 = Some (1, [])"
  unfolding parse_record_def read_timestamp_def read_content_def ex_no_content_def
  by (simp add: py_eval skip_mentions_unfold)

lemma ex_no_content_record2:
  "parse_record ex_no_content 2 =
     Some (3, [\<lparr>username = [66], timestamp = None, content = [121, 111]\<rparr>])"
  unfolding parse_record_def read_timestamp_def read_content_def ex_no_content_def
  by (simp add: py_eval accumulate_unfold skip_mentions_unfold pop_blank_tail.simps)

theorem message_emitted_iff_content_nonempty_witness:
  "0 < length ex_no_content \<and> py_strip (ex_no_content ! 0) = [65, 58]
   \<and> py_endswith (py_strip (ex_no_content ! 0)) [58]
   \<and> parse_record ex_no_content 0 = Some (1, [])
   \<and> parse_chat_log ex_no_content
       = Some [\<lparr>username = [66], timestamp = None, content = [121, 111]\<rparr>]"
proof -
  have a: "0 < length ex_no_content" by (simp add: ex_no_content_def)
  have s: "py_strip (ex_no_content ! 0) = [65, 58]"
    by (simp add: ex_no_content_def py_eval)
  have b: "py_strip (ex_no_content ! 0) \<noteq> []" unfolding s by simp
  have c: "py_endswith (py_strip (ex_no_content ! 0)) [58]"
    unfolding s by (simp add: py_eval)
  have a2: "(2::nat) < length ex_no_content" by (simp add: ex_no_content_def)
  have d: "\<not> (4::nat) < length ex_no_content" by (simp add: ex_no_content_def)
  have "parse_loop ex_no_content 0 [] = parse_loop ex_no_content 2 []"
    using parse_loop_step_to [OF a ex_no_content_record0, of 2 "[]"] by simp
  also have "\<dots> = parse_loop ex_no_content 4
      [\<lparr>username = [66], timestamp = None, content = [121, 111]\<rparr>]"
    using parse_loop_step_to [OF a2 ex_no_content_record2, of 4 "[]"] by simp
  also have "\<dots> = Some [\<lparr>username = [66], timestamp = None, content = [121, 111]\<rparr>]"
    by (rule parse_loop_done [OF d])
  finally have p: "parse_chat_log ex_no_content
      = Some [\<lparr>username = [66], timestamp = None, content = [121, 111]\<rparr>]"
    by (simp add: parse_chat_log_def)
  show ?thesis
    using message_emitted_iff_content_nonempty [OF a b c] a s c ex_no_content_record0 p
    by simp
qed

subsection \<open>The lines of a body\<close>

text \<open>
  Claim C5 says that the accumulated lines enter the body verbatim, leading and trailing
  spaces preserved. The source strips every accumulated line (line 76), so the spaces
  around \<open>y\<close> in the third of the lines \<open>A:\<close>, the content label and \<open>x\<close>, and \<open>y\<close> between
  two spaces on each side, are lost: without its terminator the third line is two spaces,
  \<open>y\<close> and two spaces, and the body is \<open>x\<close>, U+000A, \<open>y\<close>.
\<close>

definition ex_padded :: "ustring list" where
  "ex_padded = [[65, 58, 10], [20869, 23481, 58, 32, 120, 10], [32, 32, 121, 32, 32, 10]]"

lemma ex_padded_record:
  "parse_record ex_padded 0 = Some (2, [\<lparr>username = [65], timestamp = None, content = [120, 10, 121]\<rparr>])"
  unfolding parse_record_def read_timestamp_def read_content_def ex_padded_def
  by (simp add: py_eval accumulate_unfold stop_at_def blank_at_def skip_mentions_unfold
        pop_blank_tail.simps)

theorem padded_line_counterexample:
  "butlast (ex_padded ! 2) = [32, 32, 121, 32, 32]
   \<and> parse_chat_log ex_padded =
       Some [\<lparr>username = [65], timestamp = None, content = [120, 10, 121]\<rparr>]"
proof -
  have a: "(0::nat) < length ex_padded" by (simp add: ex_padded_def)
  have b: "\<not> (3::nat) < length ex_padded" by (simp add: ex_padded_def)
  have "parse_chat_log ex_padded =
       Some [\<lparr>username = [65], timestamp = None, content = [120, 10, 121]\<rparr>]"
    unfolding parse_chat_log_def
    using parse_loop_step_to [OF a ex_padded_record, of 3 "[]"] parse_loop_done [OF b]
    by simp
  then show ?thesis by (simp add: ex_padded_def)
qed

text \<open>
  Claim C5, amended. When the line after index \<open>i\<close> starts with the content label, the
  body is built from the first content line and the \<open>k\<close> lines that follow it, each with
  its leading and trailing whitespace removed, the empty lines at the end dropped, joined
  by U+000A. None of the \<open>k\<close> lines is a mention line or starts a header, no two
  consecutive ones are blank (so a single blank line stays inside the body), and the
  accumulation stops at the end of the input, at a mention line or header, or at the second
  of two consecutive blank lines, the first of which is then at the end and dropped.
\<close>

theorem content_lines_are_stripped_source_lines:
  assumes "i + 1 < length lines"
    and "py_startswith (py_strip (lines ! (i + 1))) content_label"
  shows "\<exists>k. read_content lines i =
               Some (i + 1 + k,
                 Some (py_join [10]
                   (rev (dropWhile (\<lambda>l. l = [])
                     (rev (first_content_line (lines ! (i + 1)) #
                           map (\<lambda>d. py_strip (lines ! (i + 2 + d))) [0 ..< k]))))))
             \<and> i + 1 + k < length lines
             \<and> (\<forall>d < k. \<not> stop_at lines (i + 2 + d))
             \<and> (\<forall>d. d + 1 < k \<longrightarrow>
                    \<not> (blank_at lines (i + 2 + d) \<and> blank_at lines (i + 3 + d)))
             \<and> (length lines \<le> i + 2 + k \<or> stop_at lines (i + 2 + k) \<or>
                 (0 < k \<and> blank_at lines (i + 1 + k) \<and> blank_at lines (i + 2 + k)))"
proof -
  let ?first = "first_content_line (lines ! (i + 1))"
  from accumulate_char [of 0 lines "i + 1" "[?first]"] obtain k where
    acc: "accumulate lines (i + 1) 0 [?first]
            = Some (i + 1 + k, [?first] @ map (\<lambda>d. py_strip (lines ! (i + 1 + 1 + d))) [0 ..< k])"
    and run: "acc_run lines (i + 1) 0 k" and stop: "acc_stop lines (i + 1) 0 k"
    by auto
  have two: "\<And>d. i + 1 + 1 + d = i + 2 + d" "\<And>d. i + 1 + 2 + d = i + 3 + d" by simp_all
  have "read_content lines i =
      Some (i + 1 + k, Some (py_join [10] (pop_blank_tail
        (?first # map (\<lambda>d. py_strip (lines ! (i + 2 + d))) [0 ..< k]))))"
    using assms acc by (simp add: read_content_def two)
  then have 1: "read_content lines i =
      Some (i + 1 + k, Some (py_join [10] (rev (dropWhile (\<lambda>l. l = [])
        (rev (?first # map (\<lambda>d. py_strip (lines ! (i + 2 + d))) [0 ..< k]))))))"
    by (simp only: pop_blank_tail_eq)
  have 2: "i + 1 + k < length lines"
    using run assms(1) by (auto simp: acc_run_def)
  have 3: "\<forall>d < k. \<not> stop_at lines (i + 2 + d)"
    using run by (simp add: acc_run_def two)
  have 4: "\<forall>d. d + 1 < k \<longrightarrow> \<not> (blank_at lines (i + 2 + d) \<and> blank_at lines (i + 3 + d))"
    using run by (simp add: acc_run_def eval_nat_numeral)
  have 5: "length lines \<le> i + 2 + k \<or> stop_at lines (i + 2 + k) \<or>
                 (0 < k \<and> blank_at lines (i + 1 + k) \<and> blank_at lines (i + 2 + k))"
    using stop by (auto simp: acc_stop_def two split: if_splits)
  from 1 2 3 4 5 show ?thesis by blast
qed

text \<open>
  The lines \<open>A:\<close>, the content label and \<open>x\<close>, a blank line, \<open>y\<close> between spaces, two
  blank lines and \<open>B:\<close>.
\<close>

definition ex_blanks :: "ustring list" where
  "ex_blanks = [[65, 58, 10], [20869, 23481, 58, 32, 120, 10], [10], [32, 121, 32, 10],
      [10], [10], [66, 58, 10]]"

theorem content_lines_are_stripped_source_lines_witness:
  "0 + 1 < length ex_blanks
   \<and> py_startswith (py_strip (ex_blanks ! (0 + 1))) content_label
   \<and> read_content ex_blanks 0 = Some (4, Some [120, 10, 10, 121])"
proof -
  have a: "0 + 1 < length ex_blanks" by (simp add: ex_blanks_def)
  have b: "py_startswith (py_strip (ex_blanks ! (0 + 1))) content_label"
    by (simp add: ex_blanks_def py_eval)
  have c: "read_content ex_blanks 0 = Some (4, Some [120, 10, 10, 121])"
    unfolding read_content_def ex_blanks_def
    by (simp add: py_eval accumulate_unfold stop_at_def blank_at_def pop_blank_tail.simps)
  show ?thesis
    using content_lines_are_stripped_source_lines [OF a b] a b c by simp
qed

subsection \<open>Records without a time line\<close>

lemma read_content_Some:
  assumes "i + 1 < length lines"
    and "py_startswith (py_strip (lines ! (i + 1))) content_label"
  shows "\<exists>k c. read_content lines i = Some (i + 1 + k, Some c)"
proof -
  from accumulate_char [of 0 lines "i + 1" "[first_content_line (lines ! (i + 1))]"]
  obtain k cl where "accumulate lines (i + 1) 0 [first_content_line (lines ! (i + 1))]
            = Some (i + 1 + k, cl)"
    by auto
  with assms show ?thesis by (simp add: read_content_def)
qed

lemma content_not_time:
  "py_startswith s content_label \<Longrightarrow> \<not> py_startswith s time_label"
  by (cases s) (auto simp: py_startswith_def content_label_def time_label_def)

text \<open>
  Claim C9 says that a username line followed at once by a content line always yields a
  message. The accumulation loop ends a body at a username line only when a time line
  follows it (line 79), so such a record that follows another record's content is
  absorbed into that body: of the lines \<open>A:\<close>, the time label and \<open>t\<close>, the content label
  and \<open>hi\<close>, \<open>B:\<close>, the content label and \<open>yo\<close>, the last two stay in the body of the
  only message.
\<close>

definition ex_absorbed :: "ustring list" where
  "ex_absorbed = [[65, 58, 10], [26102, 38388, 58, 32, 116, 10], [20869, 23481, 58, 32, 104, 105, 10],
      [66, 58, 10], [20869, 23481, 58, 32, 121, 111, 10]]"

lemma ex_absorbed_record:
  "parse_record ex_absorbed 0 = Some (4, [\<lparr>username = [65], timestamp = Some [116],
      content = [104, 105, 10, 66, 58, 10, 20869, 23481, 58, 32, 121, 111]\<rparr>])"
  unfolding parse_record_def read_timestamp_def read_content_def ex_absorbed_def
  by (simp add: py_eval accumulate_unfold stop_at_def blank_at_def skip_mentions_unfold
        pop_blank_tail.simps)

theorem absorbed_record_counterexample:
  "py_strip (ex_absorbed ! 3) = [66, 58]
   \<and> py_startswith (py_strip (ex_absorbed ! 4)) content_label
   \<and> parse_chat_log ex_absorbed =
       Some [\<lparr>username = [65], timestamp = Some [116],
              content = [104, 105, 10, 66, 58, 10, 20869, 23481, 58, 32, 121, 111]\<rparr>]"
proof -
  have a: "(0::nat) < length ex_absorbed" by (simp add: ex_absorbed_def)
  have b: "\<not> (5::nat) < length ex_absorbed" by (simp add: ex_absorbed_def)
  have "parse_chat_log ex_absorbed =
       Some [\<lparr>username = [65], timestamp = Some [116],
              content = [104, 105, 10, 66, 58, 10, 20869, 23481, 58, 32, 121, 111]\<rparr>]"
    unfolding parse_chat_log_def
    using parse_loop_step_to [OF a ex_absorbed_record, of 5 "[]"] parse_loop_done [OF b]
    by simp
  then show ?thesis
    by (simp add: ex_absorbed_def py_eval)
qed

text \<open>
  Claim C9, amended. When the scan of the outer loop is at a candidate username line (the
  line was not consumed as content of a preceding record) and the next line starts with
  the content label, no time line is read, the content is read, and if it is not empty the
  record yields a message whose timestamp is \<open>None\<close>, which is in the result of the scan.
\<close>

theorem record_without_time_line:
  assumes "i < length lines" "py_strip (lines ! i) \<noteq> []"
    and "py_endswith (py_strip (lines ! i)) [58]"
    and "i + 1 < length lines"
    and "py_startswith (py_strip (lines ! (i + 1))) content_label"
  shows "\<exists>i2 c i3 ms.
           read_timestamp lines i = Some (i, None)
         \<and> read_content lines i = Some (i2, Some c) \<and> skip_mentions lines i2 = Some i3
         \<and> parse_record lines i =
             Some (i3, if c = [] then []
                       else [\<lparr>username = butlast (py_strip (lines ! i)), timestamp = None,
                              content = c\<rparr>])
         \<and> parse_loop lines i acc = Some ms
         \<and> (c = [] \<or> \<lparr>username = butlast (py_strip (lines ! i)), timestamp = None, content = c\<rparr>
                        \<in> set ms)"
proof -
  have ts: "read_timestamp lines i = Some (i, None)"
    using assms(4,5) by (simp add: read_timestamp_def content_not_time)
  obtain k c where rc: "read_content lines i = Some (i + 1 + k, Some c)"
    using read_content_Some [OF assms(4,5)] by blast
  obtain i3 where sk: "skip_mentions lines (i + 1 + k) = Some i3"
    using skip_mentions_total by blast
  let ?m = "\<lparr>username = butlast (py_strip (lines ! i)), timestamp = None, content = c\<rparr>"
  let ?new = "if c = [] then [] else [?m]"
  have r: "parse_record lines i = Some (i3, ?new)"
    using parse_record_candidate [OF assms(1,2,3) ts rc sk] by simp
  obtain ms where ms: "parse_loop lines (i3 + 1) (acc @ ?new) = Some ms"
      "prefix (acc @ ?new) ms"
    using parse_loop_total by blast
  have l: "parse_loop lines i acc = Some ms"
    using parse_loop_step [OF assms(1) r] ms(1) by simp
  have "c = [] \<or> ?m \<in> set ms"
  proof (cases "c = []")
    case False
    then have "prefix (acc @ [?m]) ms" using ms(2) by simp
    then have "set (acc @ [?m]) \<subseteq> set ms" by (rule set_mono_prefix)
    then show ?thesis by simp
  qed simp
  with ts rc sk r l show ?thesis by blast
qed

text \<open>
  The lines \<open>B:\<close>, the content label and \<open>yo\<close>.
\<close>

definition ex_untimed :: "ustring list" where
  "ex_untimed = [[66, 58, 10], [20869, 23481, 58, 32, 121, 111, 10]]"

theorem record_without_time_line_witness:
  "0 < length ex_untimed \<and> py_strip (ex_untimed ! 0) = [66, 58]
   \<and> py_endswith (py_strip (ex_untimed ! 0)) [58]
   \<and> 0 + 1 < length ex_untimed
   \<and> py_startswith (py_strip (ex_untimed ! (0 + 1))) content_label
   \<and> parse_chat_log ex_untimed
       = Some [\<lparr>username = [66], timestamp = None, content = [121, 111]\<rparr>]"
proof -
  have a: "0 < length ex_untimed" by (simp add: ex_untimed_def)
  have s: "py_strip (ex_untimed ! 0) = [66, 58]" by (simp add: ex_untimed_def py_eval)
  have b: "py_strip (ex_untimed ! 0) \<noteq> []" unfolding s by simp
  have c: "py_endswith (py_strip (ex_untimed ! 0)) [58]" unfolding s by (simp add: py_eval)
  have d: "0 + 1 < length ex_untimed" by (simp add: ex_untimed_def)
  have e: "py_startswith (py_strip (ex_untimed ! (0 + 1))) content_label"
    by (simp add: ex_untimed_def py_eval)
  have r: "parse_record ex_untimed 0 =
      Some (1, [\<lparr>username = [66], timestamp = None, content = [121, 111]\<rparr>])"
    unfolding parse_record_def read_timestamp_def read_content_def ex_untimed_def
    by (simp add: py_eval accumulate_unfold skip_mentions_unfold pop_blank_tail.simps)
  have f: "\<not> (2::nat) < length ex_untimed" by (simp add: ex_untimed_def)
  have p: "parse_chat_log ex_untimed
      = Some [\<lparr>username = [66], timestamp = None, content = [121, 111]\<rparr>]"
    unfolding parse_chat_log_def
    using parse_loop_step_to [OF a r, of 2 "[]"] parse_loop_done [OF f] by simp
  show ?thesis
    using record_without_time_line [OF a b c d e, of "[]"] a s c d e p by simp
qed

subsection \<open>The content label inside the first line\<close>

lemma label_no_straddle:
  "a \<noteq> [] \<Longrightarrow> \<not> prefix content_label a \<Longrightarrow> \<not> prefix content_label (a @ content_label @ b)"
proof (cases a)
  case Nil
  assume "a \<noteq> []"
  with Nil show ?thesis by simp
next
  case (Cons x xs)
  assume np: "\<not> prefix content_label a"
  show ?thesis
  proof (cases xs)
    case Nil
    with Cons show ?thesis by (auto simp: content_label_def)
  next
    case (Cons y ys) note c2 = this
    show ?thesis
    proof (cases ys)
      case Nil
      with \<open>a = x # xs\<close> c2 show ?thesis by (auto simp: content_label_def)
    next
      case (Cons z zs)
      with \<open>a = x # xs\<close> c2 np show ?thesis by (auto simp: content_label_def)
    qed
  qed
qed

lemma content_label_nonempty: "content_label \<noteq> []"
  by (simp add: content_label_def)

lemma py_replace_prefix:
  "old \<noteq> [] \<Longrightarrow> prefix old s \<Longrightarrow>
   py_replace old [] s = py_replace old [] (drop (length old) s)"
  by (subst py_replace.simps) auto

lemma py_replace_no_prefix:
  "old \<noteq> [] \<Longrightarrow> \<not> prefix old (x # xs) \<Longrightarrow>
   py_replace old new (x # xs) = x # py_replace old new xs"
  by (subst py_replace.simps) simp

lemma py_replace_label_split:
  "py_replace content_label [] (a @ content_label @ b)
     = py_replace content_label [] a @ py_replace content_label [] b"
proof (induction a rule: length_induct)
  case (1 a)
  show ?case
  proof (cases a)
    case Nil
    have "py_replace content_label [] (content_label @ b) = py_replace content_label [] b"
      by (simp add: content_label_def py_replace_Cons)
    with Nil show ?thesis by (simp add: py_replace_Nil content_label_nonempty)
  next
    case (Cons x xs)
    show ?thesis
    proof (cases "prefix content_label a")
      case True
      then have t2: "prefix content_label (a @ content_label @ b)" by (rule prefix_prefix)
      have len: "length content_label \<le> length a" using True by (rule prefix_length_le)
      have n: "length content_label = 3" by (simp add: content_label_def)
      have sh: "length (drop (length content_label) a) < length a" using Cons n by simp
      have dr: "drop (length content_label) (a @ content_label @ b)
          = drop (length content_label) a @ content_label @ b"
        using len by simp
      have s1: "py_replace content_label [] (a @ content_label @ b)
          = py_replace content_label [] (drop (length content_label) a @ content_label @ b)"
        using py_replace_prefix [OF content_label_nonempty t2] unfolding dr .
      have s2: "py_replace content_label [] (drop (length content_label) a @ content_label @ b)
          = py_replace content_label [] (drop (length content_label) a)
            @ py_replace content_label [] b"
        using 1 sh by blast
      have s3: "py_replace content_label [] a
          = py_replace content_label [] (drop (length content_label) a)"
        by (rule py_replace_prefix [OF content_label_nonempty True])
      show ?thesis unfolding s1 s2 s3 ..
    next
      case False
      have "a \<noteq> []" using Cons by simp
      then have f2: "\<not> prefix content_label (a @ content_label @ b)"
        using False by (rule label_no_straddle)
      have s1: "py_replace content_label [] (a @ content_label @ b)
          = x # py_replace content_label [] (xs @ content_label @ b)"
        using py_replace_no_prefix [OF content_label_nonempty, of x "xs @ content_label @ b" "[]"]
          f2 Cons by simp
      have s2: "py_replace content_label [] (xs @ content_label @ b)
          = py_replace content_label [] xs @ py_replace content_label [] b"
        using 1 Cons by simp
      have s3: "py_replace content_label [] a = x # py_replace content_label [] xs"
        using py_replace_no_prefix [OF content_label_nonempty, of x xs "[]"] False Cons by simp
      show ?thesis unfolding s1 s2 s3 by simp
    qed
  qed
qed

text \<open>
  Claim C10. The first line of a body is the stripped line with every occurrence of the
  content label deleted, not only the leading one, and stripped again: when the stripped
  line is the label, a text \<open>p\<close>, the label again and a text \<open>q\<close>, the first line is made
  of \<open>p\<close> and \<open>q\<close> with their own occurrences of the label deleted.
\<close>

theorem content_label_deleted_everywhere:
  assumes "i + 1 < length lines"
    and "py_strip (lines ! (i + 1)) = content_label @ p @ content_label @ q"
  shows "first_content_line (lines ! (i + 1))
           = py_strip (py_replace content_label [] p @ py_replace content_label [] q)
         \<and> (\<exists>i' rest. read_content lines i =
               Some (i', Some (py_join [10] (pop_blank_tail
                 (py_strip (py_replace content_label [] p @ py_replace content_label [] q)
                  # rest)))))"
proof -
  have "py_replace content_label [] (content_label @ p @ content_label @ q)
      = py_replace content_label [] [] @ py_replace content_label [] (p @ content_label @ q)"
    using py_replace_label_split [of "[]" "p @ content_label @ q"] by simp
  then have e: "py_replace content_label [] (content_label @ p @ content_label @ q)
      = py_replace content_label [] p @ py_replace content_label [] q"
    by (simp add: py_replace_Nil content_label_nonempty py_replace_label_split)
  have f: "first_content_line (lines ! (i + 1))
      = py_strip (py_replace content_label [] p @ py_replace content_label [] q)"
    unfolding first_content_line_def assms(2) e ..
  have st: "py_startswith (py_strip (lines ! (i + 1))) content_label"
    unfolding py_startswith_def assms(2) by simp
  from accumulate_char [of 0 lines "i + 1" "[first_content_line (lines ! (i + 1))]"]
  obtain i' rest where "accumulate lines (i + 1) 0 [first_content_line (lines ! (i + 1))]
      = Some (i', first_content_line (lines ! (i + 1)) # rest)"
    by auto
  then have "read_content lines i = Some (i', Some (py_join [10] (pop_blank_tail
      (first_content_line (lines ! (i + 1)) # rest))))"
    using assms(1) st by (simp add: read_content_def)
  with f show ?thesis by auto
qed

text \<open>
  The lines \<open>A:\<close> and the content label, a space, \<open>a\<close>, the content label and \<open>b\<close>.
\<close>

definition ex_label_twice :: "ustring list" where
  "ex_label_twice = [[65, 58, 10], [20869, 23481, 58, 32, 97, 20869, 23481, 58, 98, 10]]"

theorem content_label_deleted_everywhere_witness:
  "0 + 1 < length ex_label_twice
   \<and> py_strip (ex_label_twice ! (0 + 1)) = content_label @ [32, 97] @ content_label @ [98]
   \<and> first_content_line (ex_label_twice ! (0 + 1)) = [97, 98]
   \<and> read_content ex_label_twice 0 = Some (1, Some [97, 98])"
proof -
  have a: "0 + 1 < length ex_label_twice" by (simp add: ex_label_twice_def)
  have b: "py_strip (ex_label_twice ! (0 + 1)) = content_label @ [32, 97] @ content_label @ [98]"
    by (simp add: ex_label_twice_def py_eval)
  have c: "read_content ex_label_twice 0 = Some (1, Some [97, 98])"
    unfolding read_content_def ex_label_twice_def
    by (simp add: py_eval accumulate_unfold pop_blank_tail.simps)
  have d: "py_strip (py_replace content_label [] [32, 97] @ py_replace content_label [] [98])
      = [97, 98]"
    by (simp add: py_eval)
  show ?thesis
    using content_label_deleted_everywhere [OF a b] a b c d by simp
qed

end
